theory Spec2Isabelle
  imports Main "HOL-Library.Char_ord" "HOL-Library.List_Lexorder"
begin

section \<open>The CHPC portal inventory plugin (plugins/inventory/portal.py)\<close>

text \<open>
  The plugin fetches a JSON document from the CMDB, validates it against a JSON schema,
  sorts the hosts by \<^verbatim>\<open>primary_address\<close> and registers groups, hosts and variables in
  the inventory of the host runtime. The embedding follows \<^verbatim>\<open>InventoryModule\<close> function by
  function. A Python exception is the \<open>Inl\<close> branch of a sum; the inventory is the list
  of the calls it has received and that have returned, oldest first, and every function that
  calls it takes that list and returns it extended. A Python \<^verbatim>\<open>str\<close> is a \<open>string\<close>, one \<open>char\<close> for one
  code point (code points below 256), compared as Python compares strings: code point
  by code point, a proper prefix first.
\<close>

subsection \<open>Data\<close>

text \<open>
  What \<^verbatim>\<open>response.json()\<close> returns: \<^verbatim>\<open>None\<close>, \<^verbatim>\<open>bool\<close>, \<^verbatim>\<open>int\<close>, \<^verbatim>\<open>str\<close>,
  \<^verbatim>\<open>list\<close> and \<^verbatim>\<open>dict\<close>. A dict is the list of its items in insertion order, its keys
  pairwise distinct. Fractional numbers are left out: a number is nowhere read by the plugin
  unless the payload is malformed.
\<close>

datatype json =
    JNull
  | JBool bool
  | JNum int
  | JStr string
  | JArr "json list"
  | JObj "(string \<times> json) list"

text \<open>
  The exceptions that can leave the plugin: the \<^verbatim>\<open>AnsibleError\<close> it raises itself, with its
  message, and the \<^verbatim>\<open>KeyError\<close> (with the missing key) and \<^verbatim>\<open>TypeError\<close> that the
  subscripts, the iteration, the comparison of sort keys and \<^verbatim>\<open>re.sub\<close> raise. The
  methods of the inventory raise \<^verbatim>\<open>AnsibleError\<close> too.
\<close>

datatype error =
    AnsibleError string
  | KeyError string
  | TypeError

text \<open>
  The three methods of the inventory that the plugin calls: \<^verbatim>\<open>add_group(group)\<close>,
  \<^verbatim>\<open>add_host(host, group=...)\<close> and \<^verbatim>\<open>set_variable(host, name, value)\<close>. The host and
  the value are whatever the payload holds there.
\<close>

datatype call =
    AddGroup string
  | AddHost json string
  | SetVariable json string json

type_synonym inventory = "call list"

text \<open>
  The inventory is the host runtime's, and its methods can raise. What they do is a
  parameter: given the calls that have returned so far and the next call, \<open>None\<close> when
  that call returns and \<open>Some\<close> of the exception when it raises. \<open>parse\<close> has no handler
  around its calls, so the exception of a call ends it.
\<close>

type_synonym sink = "inventory \<Rightarrow> call \<Rightarrow> error option"

definition invoke :: "sink \<Rightarrow> call \<Rightarrow> inventory \<Rightarrow> inventory \<times> (error + unit)" where
  "invoke sink c inventory =
     (case sink inventory c of
        Some e \<Rightarrow> (inventory, Inl e)
      | None \<Rightarrow> (inventory @ [c], Inr ()))"

text \<open>Sequencing: the next statement runs when the one before it has not raised.\<close>

definition and_then ::
  "inventory \<times> (error + unit) \<Rightarrow> (inventory \<Rightarrow> inventory \<times> (error + unit)) \<Rightarrow>
   inventory \<times> (error + unit)" where
  "and_then r next_step =
     (case r of
        (inventory, Inl e) \<Rightarrow> (inventory, Inl e)
      | (inventory, Inr u) \<Rightarrow> next_step inventory)"

text \<open>
  \<^verbatim>\<open>requests.get\<close> either raises (the exception is kept as the text \<^verbatim>\<open>to_native\<close>
  gives for it) or returns a response: its \<^verbatim>\<open>status_code\<close>, and what \<^verbatim>\<open>response.json()\<close>
  does when called, raise (\<open>Inl\<close>, again the text of the exception) or return the data.
\<close>

datatype http_result =
    Raised string
  | Response int "string + json"

definition PRIMARY_KEY :: string where
  "PRIMARY_KEY = ''primary_address''"

subsection \<open>Python's subscript and iteration on JSON values\<close>

text \<open>\<^verbatim>\<open>obj[key]\<close> for a string key: a dict looks it up, every other value raises TypeError.\<close>

fun getitem :: "json \<Rightarrow> string \<Rightarrow> error + json" where
  "getitem (JObj kvs) k = (case map_of kvs k of None \<Rightarrow> Inl (KeyError k) | Some v \<Rightarrow> Inr v)"
| "getitem JNull k = Inl TypeError"
| "getitem (JBool b) k = Inl TypeError"
| "getitem (JNum n) k = Inl TypeError"
| "getitem (JStr s) k = Inl TypeError"
| "getitem (JArr xs) k = Inl TypeError"

text \<open>
  \<^verbatim>\<open>for val in obj\<close>: a list gives its elements, a dict its keys, a string its characters
  as one-character strings; \<^verbatim>\<open>None\<close>, a bool and a number are not iterable.
\<close>

fun py_iter :: "json \<Rightarrow> error + json list" where
  "py_iter (JArr xs) = Inr xs"
| "py_iter (JObj kvs) = Inr (map (\<lambda>kv. JStr (fst kv)) kvs)"
| "py_iter (JStr s) = Inr (map (\<lambda>c. JStr [c]) s)"
| "py_iter JNull = Inl TypeError"
| "py_iter (JBool b) = Inl TypeError"
| "py_iter (JNum n) = Inl TypeError"

text \<open>A loop body that may raise, run over a list: the first exception ends the loop.\<close>

fun map_err :: "('a \<Rightarrow> error + 'b) \<Rightarrow> 'a list \<Rightarrow> error + 'b list" where
  "map_err f [] = Inr []"
| "map_err f (x # xs) =
     (case f x of
        Inl e \<Rightarrow> Inl e
      | Inr y \<Rightarrow> (case map_err f xs of Inl e \<Rightarrow> Inl e | Inr ys \<Rightarrow> Inr (y # ys)))"

subsection \<open>\<^verbatim>\<open>_sanitize_group_name\<close>\<close>

text \<open>
  \<^verbatim>\<open>regex.sub("_", name).lower().replace('-', '_')\<close> with the pattern
  \<^verbatim>\<open>[^A-Za-z0-9\_\-]\<close>: three passes over the string, each character by character.
  \<open>in_class\<close> is the character class of the pattern before its negation.
\<close>

definition in_class :: "char \<Rightarrow> bool" where
  "in_class c =
     ((CHR ''A'' \<le> c \<and> c \<le> CHR ''Z'') \<or> (CHR ''a'' \<le> c \<and> c \<le> CHR ''z'')
      \<or> (CHR ''0'' \<le> c \<and> c \<le> CHR ''9'') \<or> c = CHR ''_'' \<or> c = CHR ''-'')"

definition regex_sub :: "string \<Rightarrow> string" where
  "regex_sub name = map (\<lambda>c. if in_class c then c else CHR ''_'') name"

text \<open>
  \<^verbatim>\<open>str.lower\<close> on ASCII: the letters A to Z move up by 32, every other ASCII character
  stays. The method is only ever applied to the result of \<open>regex_sub\<close>, which is ASCII
  (lemma \<open>regex_sub_in_class\<close>).
\<close>

definition lower_char :: "char \<Rightarrow> char" where
  "lower_char c =
     (if CHR ''A'' \<le> c \<and> c \<le> CHR ''Z'' then char_of (of_char c + (32::nat)) else c)"

definition lower :: "string \<Rightarrow> string" where
  "lower s = map lower_char s"

definition replace_dash :: "string \<Rightarrow> string" where
  "replace_dash s = map (\<lambda>c. if c = CHR ''-'' then CHR ''_'' else c) s"

definition sanitize_str :: "string \<Rightarrow> string" where
  "sanitize_str name = replace_dash (lower (regex_sub name))"

text \<open>
  The argument is whatever the group list holds: \<^verbatim>\<open>re.sub\<close> raises TypeError
  ("expected string or bytes-like object") on anything but a string.
\<close>

fun sanitize_group_name :: "json \<Rightarrow> error + string" where
  "sanitize_group_name (JStr name) = Inr (sanitize_str name)"
| "sanitize_group_name JNull = Inl TypeError"
| "sanitize_group_name (JBool b) = Inl TypeError"
| "sanitize_group_name (JNum n) = Inl TypeError"
| "sanitize_group_name (JArr xs) = Inl TypeError"
| "sanitize_group_name (JObj kvs) = Inl TypeError"

text \<open>The characters a sanitized name is made of: \<^verbatim>\<open>[a-z0-9_]\<close>.\<close>

definition sanitized_char :: "char \<Rightarrow> bool" where
  "sanitized_char c =
     ((CHR ''a'' \<le> c \<and> c \<le> CHR ''z'') \<or> (CHR ''0'' \<le> c \<and> c \<le> CHR ''9'') \<or> c = CHR ''_'')"

subsection \<open>\<^verbatim>\<open>_load_inventory_data\<close>\<close>

text \<open>The headers of the request, built from the bearer token.\<close>

definition headers :: "string \<Rightarrow> (string \<times> string) list" where
  "headers cmdb_api_bearer_token =
     [(''Authorization'', ''Bearer '' @ cmdb_api_bearer_token),
      (''Content-Type'', ''application/json'')]"

text \<open>
  The body of the \<^verbatim>\<open>try\<close>: \<open>Inl\<close> is an exception raised inside it, kept as the text
  \<^verbatim>\<open>to_native(e)\<close> gives for it. The \<^verbatim>\<open>AnsibleError\<close> of the \<^verbatim>\<open>else\<close> branch is raised
  inside the \<^verbatim>\<open>try\<close> as well.
\<close>

definition try_fetch ::
  "(string \<Rightarrow> (string \<times> string) list \<Rightarrow> http_result) \<Rightarrow> string \<Rightarrow> string \<Rightarrow> string + json" where
  "try_fetch requests_get cmdb_api_url cmdb_api_bearer_token =
     (case requests_get cmdb_api_url (headers cmdb_api_bearer_token) of
        Raised m \<Rightarrow> Inl m
      | Response status_code response_json \<Rightarrow>
          if status_code = 200 then response_json
          else Inl (''Failed to fetch JSON inventory data from CMDB: '' @ cmdb_api_url @ ''.''))"

text \<open>
  The handler \<^verbatim>\<open>except Exception as e\<close> catches whatever the body raised, the
  \<^verbatim>\<open>AnsibleError\<close> of the \<^verbatim>\<open>else\<close> branch included, and raises an \<^verbatim>\<open>AnsibleError\<close>
  around its text.
\<close>

definition load_inventory_data ::
  "(string \<Rightarrow> (string \<times> string) list \<Rightarrow> http_result) \<Rightarrow> string \<Rightarrow> string \<Rightarrow> error + json" where
  "load_inventory_data requests_get cmdb_api_url cmdb_api_bearer_token =
     (case try_fetch requests_get cmdb_api_url cmdb_api_bearer_token of
        Inl m \<Rightarrow> Inl (AnsibleError (''An error occurred, the original exception is: '' @ m))
      | Inr data \<Rightarrow> Inr data)"

subsection \<open>\<^verbatim>\<open>parse\<close>: sorting the hosts\<close>

text \<open>
  \<^verbatim>\<open>sorted(xs, key=...)\<close> computes the key of every item first and then sorts the items
  on the keys with \<^verbatim>\<open><\<close>; the sort is stable. Fewer than two items are never compared.
  Strings compare with strings, numbers (a bool is a number) with numbers, and every other
  pair of scalars, \<^verbatim>\<open>None\<close> and dicts raise TypeError. Keys that are all lists, which
  Python compares element by element, are outside the model and are given TypeError too.
\<close>

fun is_str :: "json \<Rightarrow> bool" where
  "is_str (JStr s) = True"
| "is_str _ = False"

fun str_of :: "json \<Rightarrow> string" where
  "str_of (JStr s) = s"
| "str_of _ = []"

fun is_num :: "json \<Rightarrow> bool" where
  "is_num (JNum n) = True"
| "is_num (JBool b) = True"
| "is_num _ = False"

fun num_of :: "json \<Rightarrow> int" where
  "num_of (JNum n) = n"
| "num_of (JBool b) = (if b then 1 else 0)"
| "num_of _ = 0"

definition py_sorted :: "json list \<Rightarrow> json list \<Rightarrow> error + json list" where
  "py_sorted keys items =
     (if length items < 2 then Inr items
      else if list_all is_str keys
        then Inr (map snd (sort_key fst (zip (map str_of keys) items)))
      else if list_all is_num keys
        then Inr (map snd (sort_key fst (zip (map num_of keys) items)))
      else Inl TypeError)"

text \<open>
  \<^verbatim>\<open>sorted(raw_data['hosts'], key=lambda item: item[self.PRIMARY_KEY])\<close>
\<close>

definition sorted_data :: "json \<Rightarrow> error + json list" where
  "sorted_data raw_data =
     (case getitem raw_data ''hosts'' of
        Inl e \<Rightarrow> Inl e
      | Inr hosts \<Rightarrow>
          (case py_iter hosts of
             Inl e \<Rightarrow> Inl e
           | Inr items \<Rightarrow>
               (case map_err (\<lambda>item. getitem item PRIMARY_KEY) items of
                  Inl e \<Rightarrow> Inl e
                | Inr keys \<Rightarrow> py_sorted keys items)))"

subsection \<open>\<^verbatim>\<open>parse\<close>: the groups\<close>

text \<open>
  What one host adds to \<^verbatim>\<open>host_groups\<close>: nothing when its \<^verbatim>\<open>group_list\<close> equals
  \<^verbatim>\<open>[None]\<close>, the sanitized name of every element otherwise.
\<close>

definition group_names :: "json \<Rightarrow> error + string list" where
  "group_names host =
     (case getitem host ''group_list'' of
        Inl e \<Rightarrow> Inl e
      | Inr group_list \<Rightarrow>
          if group_list \<noteq> JArr [JNull]
          then (case py_iter group_list of
                  Inl e \<Rightarrow> Inl e
                | Inr vals \<Rightarrow> map_err sanitize_group_name vals)
          else Inr [])"

text \<open>The first loop over the sorted hosts, \<^verbatim>\<open>host_groups\<close> as the accumulator.\<close>

fun collect_groups :: "json list \<Rightarrow> string list \<Rightarrow> error + string list" where
  "collect_groups [] host_groups = Inr host_groups"
| "collect_groups (host # hosts) host_groups =
     (case group_names host of
        Inl e \<Rightarrow> Inl e
      | Inr names \<Rightarrow> collect_groups hosts (host_groups @ names))"

subsection \<open>\<^verbatim>\<open>parse\<close>: the hosts\<close>

text \<open>The loop \<^verbatim>\<open>for group in host_groups: self.inventory.add_group(group)\<close>.\<close>

fun add_groups :: "sink \<Rightarrow> string list \<Rightarrow> inventory \<Rightarrow> inventory \<times> (error + unit)" where
  "add_groups sink [] inventory = (inventory, Inr ())"
| "add_groups sink (name # names) inventory =
     and_then (invoke sink (AddGroup name) inventory) (add_groups sink names)"

text \<open>
  The inner loop \<^verbatim>\<open>for val in host['group_list']: add_host(hostname, group=sanitize(val))\<close>:
  the name is sanitized, then the call is made.
\<close>

fun add_to_groups ::
  "sink \<Rightarrow> json \<Rightarrow> json list \<Rightarrow> inventory \<Rightarrow> inventory \<times> (error + unit)" where
  "add_to_groups sink hostname [] inventory = (inventory, Inr ())"
| "add_to_groups sink hostname (val # vals) inventory =
     (case sanitize_group_name val of
        Inl e \<Rightarrow> (inventory, Inl e)
      | Inr name \<Rightarrow>
          and_then (invoke sink (AddHost hostname name) inventory)
            (add_to_groups sink hostname vals))"

text \<open>
  The body of the second loop over the sorted hosts, for one host, statement by statement:
  the subscripts are evaluated where the source has them, between the calls.
\<close>

definition register_host :: "sink \<Rightarrow> json \<Rightarrow> inventory \<Rightarrow> inventory \<times> (error + unit)" where
  "register_host sink host inventory =
     (case getitem host PRIMARY_KEY of
        Inl e \<Rightarrow> (inventory, Inl e)
      | Inr hostname \<Rightarrow>
          and_then (invoke sink (AddHost hostname ''all'') inventory) (\<lambda>inv1.
          and_then (invoke sink (SetVariable hostname ''ansible_host'' hostname) inv1) (\<lambda>inv2.
          (case getitem host ''group_list'' of
             Inl e \<Rightarrow> (inv2, Inl e)
           | Inr group_list \<Rightarrow>
               and_then
                 (if group_list \<noteq> JArr [JNull]
                  then (case py_iter group_list of
                          Inl e \<Rightarrow> (inv2, Inl e)
                        | Inr vals \<Rightarrow> add_to_groups sink hostname vals inv2)
                  else (inv2, Inr ()))
                 (\<lambda>inv3.
                    (case getitem host ''enabled'' of
                       Inl e \<Rightarrow> (inv3, Inl e)
                     | Inr enabled \<Rightarrow>
                         invoke sink (SetVariable hostname ''enabled'' enabled) inv3))))))"

fun register_hosts :: "sink \<Rightarrow> json list \<Rightarrow> inventory \<Rightarrow> inventory \<times> (error + unit)" where
  "register_hosts sink [] inventory = (inventory, Inr ())"
| "register_hosts sink (host # hosts) inventory =
     and_then (register_host sink host inventory) (register_hosts sink hosts)"

subsection \<open>\<^verbatim>\<open>parse\<close>\<close>

text \<open>
  The parameters are what the method takes from outside the file: the inventory's methods
  (\<open>sink\<close>); \<^verbatim>\<open>requests.get\<close>;
  \<open>validate\<close>, the call \<^verbatim>\<open>validate(instance=raw_data, schema=schema)\<close> against the schema
  file of the package, \<open>None\<close> when it returns and \<open>Some\<close> of the text of the
  \<^verbatim>\<open>ValidationError\<close> when it raises; \<open>list_of_set\<close>, the order in which
  \<^verbatim>\<open>list(set(host_groups))\<close> enumerates the set; the two options of the configuration;
  and the inventory. The result is the inventory after the call and, when the call raised,
  the exception. The calls into the base class, the reading of the configuration and of the
  schema file, and the logging of the sorted hosts are left out: they make no call to the
  inventory.
\<close>

definition parse ::
  "sink \<Rightarrow> (string \<Rightarrow> (string \<times> string) list \<Rightarrow> http_result) \<Rightarrow> (json \<Rightarrow> string option) \<Rightarrow>
   (string list \<Rightarrow> string list) \<Rightarrow> string \<Rightarrow> string \<Rightarrow> inventory \<Rightarrow> inventory \<times> (error + unit)" where
  "parse sink requests_get validate list_of_set cmdb_api_url cmdb_api_bearer_token inventory =
     (case load_inventory_data requests_get cmdb_api_url cmdb_api_bearer_token of
        Inl e \<Rightarrow> (inventory, Inl e)
      | Inr raw_data \<Rightarrow>
          (case validate raw_data of
             Some msg \<Rightarrow>
               (inventory,
                Inl (AnsibleError (''Unable to validate data, the original error is: '' @ msg)))
           | None \<Rightarrow>
               (case sorted_data raw_data of
                  Inl e \<Rightarrow> (inventory, Inl e)
                | Inr sorted_hosts \<Rightarrow>
                    (case collect_groups sorted_hosts [] of
                       Inl e \<Rightarrow> (inventory, Inl e)
                     | Inr host_groups \<Rightarrow>
                         and_then (add_groups sink (list_of_set host_groups) inventory)
                           (register_hosts sink sorted_hosts)))))"

text \<open>
  What is known of \<^verbatim>\<open>list(set(xs))\<close>: each element of \<open>xs\<close> once, in some order.
\<close>

definition list_of_set_ok :: "(string list \<Rightarrow> string list) \<Rightarrow> bool" where
  "list_of_set_ok list_of_set = (\<forall>xs. distinct (list_of_set xs) \<and> set (list_of_set xs) = set xs)"

section \<open>The schema and the registration the specification describes\<close>

subsection \<open>The schema\<close>

text \<open>
  Modelled from the spec: the schema file \<^verbatim>\<open>plugin_utils/portal-cmdb-schema.json\<close> that
  \<^verbatim>\<open>parse\<close> loads is not among the sources. The specification says of it that it
  constrains at least \<^verbatim>\<open>hosts\<close> to be a sequence of objects, each requiring
  \<^verbatim>\<open>primary_address\<close> (a string) and \<^verbatim>\<open>enabled\<close> (a boolean), with \<^verbatim>\<open>group_list\<close> a
  sequence of strings or null. \<open>schema_conforms\<close> is that constraint, and a validator is
  sound when it lets through conforming documents only: the schema may ask for more.
\<close>

fun is_bool :: "json \<Rightarrow> bool" where
  "is_bool (JBool b) = True"
| "is_bool _ = False"

fun group_entry_conforms :: "json \<Rightarrow> bool" where
  "group_entry_conforms (JStr s) = True"
| "group_entry_conforms JNull = True"
| "group_entry_conforms _ = False"

definition host_conforms :: "json \<Rightarrow> bool" where
  "host_conforms host =
     ((case getitem host ''primary_address'' of Inr v \<Rightarrow> is_str v | Inl e \<Rightarrow> False) \<and>
      (case getitem host ''enabled'' of Inr v \<Rightarrow> is_bool v | Inl e \<Rightarrow> False) \<and>
      (case getitem host ''group_list'' of
         Inr (JArr vals) \<Rightarrow> list_all group_entry_conforms vals
       | _ \<Rightarrow> False))"

definition schema_conforms :: "json \<Rightarrow> bool" where
  "schema_conforms raw_data =
     (case getitem raw_data ''hosts'' of
        Inr (JArr hosts) \<Rightarrow> list_all host_conforms hosts
      | _ \<Rightarrow> False)"

definition schema_sound :: "(json \<Rightarrow> string option) \<Rightarrow> bool" where
  "schema_sound validate = (\<forall>raw_data. validate raw_data = None \<longrightarrow> schema_conforms raw_data)"

subsection \<open>The fields of a payload\<close>

text \<open>
  The value under a key, the hosts of a payload, and the address and the group list of a
  host, as total functions: \<open>JNull\<close>, the empty list and the empty string stand where
  the payload has nothing of the right kind, which a conforming payload excludes
  (lemmas \<open>host_conformsD\<close> and \<open>schema_conformsD\<close>).
\<close>

definition field :: "json \<Rightarrow> string \<Rightarrow> json" where
  "field obj k = (case getitem obj k of Inr v \<Rightarrow> v | Inl e \<Rightarrow> JNull)"

definition hosts_of :: "json \<Rightarrow> json list" where
  "hosts_of raw_data = (case field raw_data ''hosts'' of JArr hosts \<Rightarrow> hosts | _ \<Rightarrow> [])"

definition primary_address :: "json \<Rightarrow> string" where
  "primary_address host = str_of (field host PRIMARY_KEY)"

definition group_list :: "json \<Rightarrow> json list" where
  "group_list host = (case field host ''group_list'' of JArr vals \<Rightarrow> vals | _ \<Rightarrow> [])"

subsection \<open>The registration of a host\<close>

text \<open>
  The specification's registration record of a host: the host name is its
  \<^verbatim>\<open>primary_address\<close>; its memberships are the sanitized names of its group list, none
  when the list is the placeholder \<^verbatim>\<open>[null]\<close>; and the calls for it are, in order,
  \<^verbatim>\<open>add_host\<close> into \<^verbatim>\<open>all\<close>, \<^verbatim>\<open>set_variable\<close> of \<^verbatim>\<open>ansible_host\<close>, one \<^verbatim>\<open>add_host\<close> for
  each membership and \<^verbatim>\<open>set_variable\<close> of \<^verbatim>\<open>enabled\<close>.
\<close>

definition memberships :: "json \<Rightarrow> string list" where
  "memberships host =
     (if group_list host = [JNull] then []
      else map (\<lambda>val. sanitize_str (str_of val)) (group_list host))"

definition calls_with :: "json \<Rightarrow> string list \<Rightarrow> call list" where
  "calls_with host names =
     [AddHost (JStr (primary_address host)) ''all'',
      SetVariable (JStr (primary_address host)) ''ansible_host'' (JStr (primary_address host))] @
     map (AddHost (JStr (primary_address host))) names @
     [SetVariable (JStr (primary_address host)) ''enabled'' (field host ''enabled'')]"

definition host_calls :: "json \<Rightarrow> call list" where
  "host_calls host = calls_with host (memberships host)"

text \<open>A group list that is the placeholder or holds no null at all.\<close>

definition no_mixed_null :: "json \<Rightarrow> bool" where
  "no_mixed_null host = (group_list host = [JNull] \<or> JNull \<notin> set (group_list host))"

fun is_add_group :: "call \<Rightarrow> bool" where
  "is_add_group (AddGroup name) = True"
| "is_add_group _ = False"

subsection \<open>Sequences of calls\<close>

text \<open>
  A sequence of calls made one after the other on the inventory, up to the first one that
  raises; and whether the inventory lets all of them return.
\<close>

fun emit :: "sink \<Rightarrow> call list \<Rightarrow> inventory \<Rightarrow> inventory \<times> (error + unit)" where
  "emit sink [] inventory = (inventory, Inr ())"
| "emit sink (c # cs) inventory = and_then (invoke sink c inventory) (emit sink cs)"

fun accepts :: "sink \<Rightarrow> inventory \<Rightarrow> call list \<Rightarrow> bool" where
  "accepts sink inventory [] = True"
| "accepts sink inventory (c # cs) =
     (sink inventory c = None \<and> accepts sink (inventory @ [c]) cs)"


fun last_set_variable :: "call list \<Rightarrow> json \<Rightarrow> string \<Rightarrow> json option" where
  "last_set_variable [] host name = None"
| "last_set_variable (c # cs) host name =
     (case last_set_variable cs host name of
        Some v \<Rightarrow> Some v
      | None \<Rightarrow>
          (case c of
             SetVariable h n v \<Rightarrow> if h = host \<and> n = name then Some v else None
           | AddGroup g \<Rightarrow> None
           | AddHost h g \<Rightarrow> None))"

subsection \<open>Concrete collaborators and payloads\<close>

text \<open>
  Instances of the parameters, for concrete runs: the validator of exactly the constraint
  above, with one fixed message; a server that answers every request with a fixed status
  and body; the JSON of a host record and of a payload; an inventory that lets every call
  return; and an inventory with the two checks of Ansible's \<^verbatim>\<open>InventoryData\<close> that
  conforming payloads can meet: \<^verbatim>\<open>add_group\<close> raises AnsibleError on an empty group name
  and \<^verbatim>\<open>add_host\<close> on an empty host name.
\<close>

definition portal_validate :: "json \<Rightarrow> string option" where
  "portal_validate raw_data =
     (if schema_conforms raw_data then None else Some ''the instance does not conform'')"

definition serve :: "int \<Rightarrow> string + json \<Rightarrow> string \<Rightarrow> (string \<times> string) list \<Rightarrow> http_result" where
  "serve status_code response_json url hs = Response status_code response_json"

definition host_record :: "string \<Rightarrow> json list \<Rightarrow> bool \<Rightarrow> json" where
  "host_record address groups enabled =
     JObj [(''primary_address'', JStr address), (''group_list'', JArr groups),
           (''enabled'', JBool enabled)]"

definition payload :: "json list \<Rightarrow> json" where
  "payload hosts = JObj [(''hosts'', JArr hosts)]"

definition accept_all :: sink where
  "accept_all inventory c = None"

fun refuse_empty_names :: sink where
  "refuse_empty_names inventory (AddGroup name) =
     (if name = [] then Some (AnsibleError ''Invalid empty/false group name provided: '') else None)"
| "refuse_empty_names inventory (AddHost host name) =
     (if host = JStr [] then Some (AnsibleError ''Invalid empty host name provided: '') else None)"
| "refuse_empty_names inventory (SetVariable host name v) = None"

section \<open>Properties\<close>

subsection \<open>The sanitizer\<close>

lemma regex_sub_in_class: "list_all in_class (regex_sub name)"
  by (induction name) (simp_all add: regex_sub_def in_class_def)

lemma lower_char_upper:
  "CHR ''A'' \<le> c \<Longrightarrow> c \<le> CHR ''Z'' \<Longrightarrow> CHR ''a'' \<le> lower_char c \<and> lower_char c \<le> CHR ''z''"
  by (simp add: lower_char_def less_eq_char_def)

lemma sanitized_char_step:
  "sanitized_char
     ((\<lambda>c. if c = CHR ''-'' then CHR ''_'' else c)
        (lower_char ((\<lambda>c. if in_class c then c else CHR ''_'') c)))"
  unfolding in_class_def sanitized_char_def
  using lower_char_upper [of c]
  by (auto simp: lower_char_def)

lemma sanitized_char_fixed:
  "sanitized_char c \<Longrightarrow>
     (\<lambda>c. if c = CHR ''-'' then CHR ''_'' else c)
        (lower_char ((\<lambda>c. if in_class c then c else CHR ''_'') c)) = c"
  unfolding in_class_def sanitized_char_def lower_char_def
  by (auto simp: less_eq_char_def)

lemma sanitize_str_chars: "list_all sanitized_char (sanitize_str x)"
  unfolding sanitize_str_def replace_dash_def lower_def regex_sub_def
  by (induction x) (simp_all add: sanitized_char_step)

lemma sanitize_str_fixed: "list_all sanitized_char x \<Longrightarrow> sanitize_str x = x"
  unfolding sanitize_str_def replace_dash_def lower_def regex_sub_def
  by (induction x) (simp_all add: sanitized_char_fixed)

text \<open>
  C8: sanitizing is idempotent. The sanitizer returns a name for every string, and the
  sanitizer applied to that name returns the same name.
\<close>

theorem sanitize_idempotent:
  "sanitize_group_name (JStr x) = Inr (sanitize_str x) \<and>
   sanitize_group_name (JStr (sanitize_str x)) = Inr (sanitize_str x)"
  by (simp add: sanitize_str_fixed sanitize_str_chars)

text \<open>
  C9: the sanitizer, which replaces every character outside \<^verbatim>\<open>[A-Za-z0-9_-]\<close> by an
  underscore, lower-cases and replaces the dash by an underscore, returns for every string
  a name made of the characters \<^verbatim>\<open>[a-z0-9_]\<close> only, one for each character of the string.
\<close>

theorem sanitize_charset:
  "sanitize_group_name (JStr x) =
     Inr (replace_dash (lower (regex_sub x))) \<and>
   list_all sanitized_char (replace_dash (lower (regex_sub x))) \<and>
   length (replace_dash (lower (regex_sub x))) = length x"
  using sanitize_str_chars [of x]
  by (simp add: sanitize_str_def replace_dash_def lower_def regex_sub_def)

subsection \<open>Conforming payloads\<close>

lemma host_conformsD:
  assumes "host_conforms h"
  shows "getitem h PRIMARY_KEY = Inr (JStr (primary_address h))"
    and "\<exists>b. getitem h ''enabled'' = Inr (JBool b)"
    and "getitem h ''group_list'' = Inr (JArr (group_list h))"
    and "list_all group_entry_conforms (group_list h)"
  using assms
  unfolding host_conforms_def primary_address_def group_list_def field_def PRIMARY_KEY_def
  by (auto split: sum.splits json.splits elim: is_str.elims is_bool.elims)

lemma schema_conformsD:
  assumes "schema_conforms raw"
  shows "getitem raw ''hosts'' = Inr (JArr (hosts_of raw))"
    and "list_all host_conforms (hosts_of raw)"
  using assms unfolding schema_conforms_def hosts_of_def field_def
  by (auto split: sum.splits json.splits)

lemma insort_key_decorated:
  "insort_key fst (f x, x) (map (\<lambda>y. (f y, y)) ys) = map (\<lambda>y. (f y, y)) (insort_key f x ys)"
  by (induction ys) simp_all

lemma sort_key_decorated:
  "sort_key fst (zip (map f xs) xs) = map (\<lambda>y. (f y, y)) (sort_key f xs)"
  by (induction xs) (simp_all add: insort_key_decorated)

lemma sort_key_undecorate:
  "map snd (sort_key fst (zip (map f xs) xs)) = sort_key f xs"
  by (simp add: sort_key_decorated comp_def)

lemma sort_key_short: "length xs < 2 \<Longrightarrow> sort_key f xs = xs"
  by (cases xs; cases "tl xs") auto

lemma map_err_keys:
  "list_all host_conforms hs \<Longrightarrow>
     map_err (\<lambda>item. getitem item PRIMARY_KEY) hs = Inr (map (\<lambda>h. JStr (primary_address h)) hs)"
  by (induction hs) (simp_all add: host_conformsD(1))

lemma sorted_data_conforms:
  assumes "schema_conforms raw"
  shows "sorted_data raw = Inr (sort_key primary_address (hosts_of raw))"
proof -
  have keys: "map str_of (map (\<lambda>h. JStr (primary_address h)) (hosts_of raw)) = map primary_address (hosts_of raw)"
    by simp
  have strs: "list_all is_str (map (\<lambda>h. JStr (primary_address h)) (hosts_of raw))"
    by (simp add: list_all_iff)
  show ?thesis
    using schema_conformsD [OF assms] strs
    by (simp add: sorted_data_def map_err_keys py_sorted_def keys sort_key_undecorate sort_key_short del: map_map)
qed

lemma map_err_sanitize_strs:
  "list_all is_str vals \<Longrightarrow>
     map_err sanitize_group_name vals = Inr (map (\<lambda>val. sanitize_str (str_of val)) vals)"
  by (induction vals) (auto elim: is_str.elims)



lemma entries_without_null:
  "list_all group_entry_conforms vals \<Longrightarrow> JNull \<notin> set vals \<Longrightarrow> list_all is_str vals"
proof (induction vals)
  case Nil
  then show ?case by simp
next
  case (Cons v vals)
  then show ?case by (cases v) auto
qed

lemma group_names_eq:
  assumes "getitem host ''group_list'' = Inr (JArr vals)"
  shows "group_names host = (if vals = [JNull] then Inr [] else map_err sanitize_group_name vals)"
  using assms by (simp add: group_names_def)

lemma group_names_memberships:
  assumes "host_conforms host" "no_mixed_null host"
  shows "group_names host = Inr (memberships host)"
proof (cases "group_list host = [JNull]")
  case True
  then show ?thesis
    using host_conformsD(3) [OF assms(1)] by (simp add: group_names_eq memberships_def)
next
  case False
  with assms(2) have "JNull \<notin> set (group_list host)"
    by (simp add: no_mixed_null_def)
  with host_conformsD(4) [OF assms(1)] have "list_all is_str (group_list host)"
    by (rule entries_without_null)
  with False show ?thesis
    using host_conformsD(3) [OF assms(1)]
    by (simp add: group_names_eq memberships_def map_err_sanitize_strs)
qed

lemma collect_groups_map_err:
  "collect_groups hosts acc =
     (case map_err group_names hosts of Inl e \<Rightarrow> Inl e | Inr nss \<Rightarrow> Inr (acc @ concat nss))"
  by (induction hosts arbitrary: acc) (auto split: sum.splits)

lemma map_err_all_ok:
  "(\<And>x. x \<in> set xs \<Longrightarrow> f x = Inr (g x)) \<Longrightarrow> map_err f xs = Inr (map g xs)"
  by (induction xs) auto

lemma map_err_InrD:
  "map_err f xs = Inr ys \<Longrightarrow> x \<in> set xs \<Longrightarrow> \<exists>y. f x = Inr y"
  by (induction xs arbitrary: ys) (auto split: sum.splits)

lemma load_ok:
  "requests_get url (headers token) = Response 200 (Inr raw) \<Longrightarrow>
     load_inventory_data requests_get url token = Inr raw"
  by (simp add: load_inventory_data_def try_fetch_def)

lemma sorted_hosts_conform:
  "schema_conforms raw \<Longrightarrow> h \<in> set (sort_key primary_address (hosts_of raw)) \<Longrightarrow> host_conforms h"
  using schema_conformsD(2) [of raw] by (simp add: list_all_iff)

subsection \<open>Calls on the inventory\<close>

lemma and_then_Inl [simp]: "and_then (inventory, Inl e) f = (inventory, Inl e)"
  by (simp add: and_then_def)

lemma and_then_Inr [simp]: "and_then (inventory, Inr u) f = f inventory"
  by (simp add: and_then_def)

lemma and_then_assoc: "and_then (and_then r f) g = and_then r (\<lambda>i. and_then (f i) g)"
  by (simp add: and_then_def split: prod.splits sum.splits)

lemma and_then_return: "and_then r (\<lambda>i. (i, Inr ())) = r"
  by (simp add: and_then_def split: prod.splits sum.splits)

lemma emit_single: "emit sink [c] inventory = invoke sink c inventory"
proof -
  have "emit sink [] = (\<lambda>i. (i, Inr ()))"
    by (rule ext) simp
  then show ?thesis
    by (simp add: and_then_return)
qed

lemma emit_append:
  "emit sink (xs @ ys) inventory = and_then (emit sink xs inventory) (emit sink ys)"
proof (induction xs arbitrary: inventory)
  case Nil
  then show ?case by simp
next
  case (Cons x xs)
  have "emit sink (xs @ ys) = (\<lambda>i. and_then (emit sink xs i) (emit sink ys))"
    by (rule ext) (rule Cons.IH)
  then show ?case
    by (simp add: and_then_assoc)
qed

lemma add_groups_emit: "add_groups sink names inventory = emit sink (map AddGroup names) inventory"
proof (induction names arbitrary: inventory)
  case Nil
  then show ?case by simp
next
  case (Cons n names)
  have "add_groups sink names = emit sink (map AddGroup names)"
    by (rule ext) (rule Cons.IH)
  then show ?case by simp
qed

lemma add_to_groups_emit:
  "map_err sanitize_group_name vals = Inr names \<Longrightarrow>
     add_to_groups sink hostname vals inventory = emit sink (map (AddHost hostname) names) inventory"
proof (induction vals arbitrary: inventory names)
  case Nil
  then show ?case by simp
next
  case (Cons v vals)
  from Cons.prems obtain n ns where v: "sanitize_group_name v = Inr n"
    and ns: "map_err sanitize_group_name vals = Inr ns" and names: "names = n # ns"
    by (auto split: sum.splits)
  have "add_to_groups sink hostname vals = emit sink (map (AddHost hostname) ns)"
    by (rule ext) (rule Cons.IH [OF ns])
  with v names show ?case by simp
qed

lemma register_host_emit:
  assumes "host_conforms host" and "group_names host = Inr names"
  shows "register_host sink host inventory = emit sink (calls_with host names) inventory"
proof -
  let ?h = "JStr (primary_address host)"
  obtain b where en: "getitem host ''enabled'' = Inr (JBool b)"
    using host_conformsD(2) [OF assms(1)] by blast
  then have fld: "field host ''enabled'' = JBool b"
    by (simp add: field_def)
  have gl: "getitem host ''group_list'' = Inr (JArr (group_list host))"
    by (rule host_conformsD(3) [OF assms(1)])
  have pk: "getitem host PRIMARY_KEY = Inr ?h"
    by (rule host_conformsD(1) [OF assms(1)])
  have loop: "(if group_list host \<noteq> [JNull]
               then (case py_iter (JArr (group_list host)) of
                       Inl e \<Rightarrow> (i, Inl e)
                     | Inr vals \<Rightarrow> add_to_groups sink ?h vals i)
               else (i, Inr ())) = emit sink (map (AddHost ?h) names) i" for i
  proof (cases "group_list host = [JNull]")
    case True
    with assms(2) gl have "names = []"
      by (simp add: group_names_eq)
    with True show ?thesis by simp
  next
    case False
    with assms(2) gl have "map_err sanitize_group_name (group_list host) = Inr names"
      by (simp add: group_names_eq)
    with False show ?thesis
      by (simp add: add_to_groups_emit)
  qed
  have tail: "emit sink (map (AddHost ?h) names @ [SetVariable ?h ''enabled'' (JBool b)]) =
      (\<lambda>i. and_then (emit sink (map (AddHost ?h) names) i)
        (invoke sink (SetVariable ?h ''enabled'' (JBool b))))"
  proof (rule ext)
    fix i
    have "emit sink [SetVariable ?h ''enabled'' (JBool b)] =
        invoke sink (SetVariable ?h ''enabled'' (JBool b))"
      by (rule ext) (rule emit_single)
    then show "emit sink (map (AddHost ?h) names @ [SetVariable ?h ''enabled'' (JBool b)]) i =
      and_then (emit sink (map (AddHost ?h) names) i)
        (invoke sink (SetVariable ?h ''enabled'' (JBool b)))"
      by (simp only: emit_append)
  qed
  have rest: "emit sink (SetVariable ?h ''ansible_host'' ?h #
        map (AddHost ?h) names @ [SetVariable ?h ''enabled'' (JBool b)]) =
      (\<lambda>i1. and_then (invoke sink (SetVariable ?h ''ansible_host'' ?h) i1)
        (\<lambda>i2. and_then (emit sink (map (AddHost ?h) names) i2)
           (invoke sink (SetVariable ?h ''enabled'' (JBool b)))))"
    by (rule ext) (simp only: emit.simps tail)
  show ?thesis
    unfolding register_host_def calls_with_def
    by (simp add: pk gl en fld loop del: emit.simps) (simp add: rest)
qed

lemma register_hosts_emit:
  "(\<And>h i. h \<in> set hosts \<Longrightarrow> register_host sink h i = emit sink (calls h) i) \<Longrightarrow>
     register_hosts sink hosts inventory = emit sink (concat (map calls hosts)) inventory"
proof (induction hosts arbitrary: inventory)
  case Nil
  then show ?case by simp
next
  case (Cons h hosts)
  have "register_hosts sink hosts = emit sink (concat (map calls hosts))"
    by (rule ext) (rule Cons.IH, rule Cons.prems, simp)
  with Cons.prems [of h] show ?case
    by (simp add: emit_append)
qed

lemma emit_accepts: "accepts sink inventory cs \<Longrightarrow> emit sink cs inventory = (inventory @ cs, Inr ())"
  by (induction cs arbitrary: inventory) (simp_all add: invoke_def)

lemma accepts_accept_all: "accepts accept_all inventory cs"
  by (induction cs arbitrary: inventory) (simp_all add: accept_all_def)

lemma emit_accept_all: "emit accept_all cs inventory = (inventory @ cs, Inr ())"
  by (rule emit_accepts) (rule accepts_accept_all)

lemma emit_cases:
  "(accepts sink inventory cs \<and> emit sink cs inventory = (inventory @ cs, Inr ())) \<or>
   (\<exists>pre c post e. cs = pre @ c # post \<and> accepts sink inventory pre \<and>
      sink (inventory @ pre) c = Some e \<and> emit sink cs inventory = (inventory @ pre, Inl e))"
proof (induction cs arbitrary: inventory)
  case Nil
  then show ?case by simp
next
  case (Cons c cs)
  show ?case
  proof (cases "sink inventory c")
    case (Some e)
    then have "Cons c cs = [] @ c # cs \<and> accepts sink inventory [] \<and>
        sink (inventory @ []) c = Some e \<and> emit sink (c # cs) inventory = (inventory @ [], Inl e)"
      by (simp add: invoke_def)
    then show ?thesis by blast
  next
    case None
    from Cons.IH [of "inventory @ [c]"] show ?thesis
    proof
      assume "accepts sink (inventory @ [c]) cs \<and>
        emit sink cs (inventory @ [c]) = ((inventory @ [c]) @ cs, Inr ())"
      with None show ?thesis by (simp add: invoke_def)
    next
      assume "\<exists>pre c' post e. cs = pre @ c' # post \<and> accepts sink (inventory @ [c]) pre \<and>
        sink ((inventory @ [c]) @ pre) c' = Some e \<and>
        emit sink cs (inventory @ [c]) = ((inventory @ [c]) @ pre, Inl e)"
      then obtain pre c' post e where p: "cs = pre @ c' # post" "accepts sink (inventory @ [c]) pre"
        "sink ((inventory @ [c]) @ pre) c' = Some e"
        "emit sink cs (inventory @ [c]) = ((inventory @ [c]) @ pre, Inl e)"
        by blast
      with None have "c # cs = (c # pre) @ c' # post \<and> accepts sink inventory (c # pre) \<and>
        sink (inventory @ (c # pre)) c' = Some e \<and>
        emit sink (c # cs) inventory = (inventory @ (c # pre), Inl e)"
        by (simp add: invoke_def)
      then show ?thesis by blast
    qed
  qed
qed

lemma emit_returns: "snd (emit sink cs inventory) = Inr () \<Longrightarrow> emit sink cs inventory = (inventory @ cs, Inr ())"
  using emit_cases [of sink inventory cs] by auto






text \<open>
  The run of \<open>parse\<close> on a payload that conforms: the groups are collected, or the
  collecting loop raises before any call; then the calls are made in order.
\<close>

lemma parse_conforms:
  assumes "requests_get url (headers token) = Response 200 (Inr raw)"
    and "validate raw = None" and "schema_conforms raw"
  shows "parse sink requests_get validate list_of_set url token inventory =
           (case collect_groups (sort_key primary_address (hosts_of raw)) [] of
              Inl e \<Rightarrow> (inventory, Inl e)
            | Inr host_groups \<Rightarrow>
                emit sink
                  (map AddGroup (list_of_set host_groups) @
                   concat (map (\<lambda>h. calls_with h (projr (group_names h)))
                             (sort_key primary_address (hosts_of raw))))
                  inventory)"
proof (cases "collect_groups (sort_key primary_address (hosts_of raw)) []")
  case (Inl e)
  with assms show ?thesis
    by (simp add: parse_def load_ok sorted_data_conforms)
next
  case (Inr host_groups)
  let ?hs = "sort_key primary_address (hosts_of raw)"
  from Inr obtain nss where nss: "map_err group_names ?hs = Inr nss"
    by (auto simp: collect_groups_map_err split: sum.splits)
  have one: "register_host sink h i = emit sink (calls_with h (projr (group_names h))) i"
    if "h \<in> set ?hs" for h i
  proof -
    from that obtain names where "group_names h = Inr names"
      using map_err_InrD [OF nss] by blast
    then show ?thesis
      using register_host_emit [OF sorted_hosts_conform [OF assms(3) that], of names sink i] by simp
  qed
  have "register_hosts sink ?hs = emit sink (concat (map (\<lambda>h. calls_with h (projr (group_names h))) ?hs))"
    by (rule ext) (rule register_hosts_emit, rule one)
  with Inr assms show ?thesis
    by (simp add: parse_def load_ok sorted_data_conforms add_groups_emit emit_append)
qed

lemma parse_plain:
  assumes "requests_get url (headers token) = Response 200 (Inr raw)"
    and "validate raw = None" and "schema_conforms raw"
    and "list_all no_mixed_null (hosts_of raw)"
  shows "parse sink requests_get validate list_of_set url token inventory =
           emit sink
             (map AddGroup (list_of_set (concat (map memberships (sort_key primary_address (hosts_of raw))))) @
              concat (map host_calls (sort_key primary_address (hosts_of raw))))
             inventory"
proof -
  let ?hs = "sort_key primary_address (hosts_of raw)"
  have ok: "group_names h = Inr (memberships h)" if "h \<in> set ?hs" for h
    using that sorted_hosts_conform [OF assms(3)] assms(4)
    by (simp add: list_all_iff group_names_memberships)
  have "map_err group_names ?hs = Inr (map memberships ?hs)"
    by (rule map_err_all_ok) (rule ok)
  then have groups: "collect_groups ?hs [] = Inr (concat (map memberships ?hs))"
    by (simp add: collect_groups_map_err)
  have eq: "map (\<lambda>h. calls_with h (projr (group_names h))) ?hs = map host_calls ?hs"
    by (rule map_cong) (simp_all add: ok host_calls_def)
  from groups assms(1-3) show ?thesis
    by (simp add: parse_conforms eq)
qed

subsection \<open>The fetch\<close>

text \<open>
  C4: a response with a status other than 200 makes the fetch raise an AnsibleError whose
  message holds the requested URL, and \<open>parse\<close> raises it with the inventory as it was;
  an exception of \<open>requests.get\<close> or of \<open>response.json()\<close> makes the fetch raise an
  AnsibleError around the message of that exception, the inventory again untouched.
\<close>

theorem fetch_failure:
  "(requests_get url (headers token) = Response status body \<and> status \<noteq> 200 \<longrightarrow>
      load_inventory_data requests_get url token =
        Inl (AnsibleError (''An error occurred, the original exception is: '' @
               ''Failed to fetch JSON inventory data from CMDB: '' @ url @ ''.'')) \<and>
      parse sink requests_get validate list_of_set url token inventory =
        (inventory, Inl (AnsibleError (''An error occurred, the original exception is: '' @
               ''Failed to fetch JSON inventory data from CMDB: '' @ url @ ''.'')))) \<and>
   (requests_get url (headers token) = Raised m \<or>
    requests_get url (headers token) = Response 200 (Inl m) \<longrightarrow>
      load_inventory_data requests_get url token =
        Inl (AnsibleError (''An error occurred, the original exception is: '' @ m)) \<and>
      parse sink requests_get validate list_of_set url token inventory =
        (inventory, Inl (AnsibleError (''An error occurred, the original exception is: '' @ m))))"
  by (auto simp: parse_def load_inventory_data_def try_fetch_def)

theorem fetch_failure_witness:
  "parse refuse_empty_names (serve 404 (Inr JNull)) portal_validate remdups ''https://cmdb.example/api'' ''secret'' [] =
     ([], Inl (AnsibleError
        (''An error occurred, the original exception is: '' @
         ''Failed to fetch JSON inventory data from CMDB: '' @ ''https://cmdb.example/api'' @ ''.''))) \<and>
   parse refuse_empty_names (serve 200 (Inl ''Expecting value'')) portal_validate remdups ''https://cmdb.example/api'' ''secret'' [] =
     ([], Inl (AnsibleError (''An error occurred, the original exception is: '' @ ''Expecting value'')))"
proof -
  have a: "serve 404 (Inr JNull) ''https://cmdb.example/api'' (headers ''secret'') = Response 404 (Inr JNull) \<and> (404::int) \<noteq> 200"
    by (simp add: serve_def)
  have b: "serve 200 (Inl ''Expecting value'') ''https://cmdb.example/api'' (headers ''secret'') = Response 200 (Inl ''Expecting value'')"
    by (simp add: serve_def)
  from a b show ?thesis
    using fetch_failure [where requests_get = "serve 404 (Inr JNull)" and url = "''https://cmdb.example/api''"
        and token = "''secret''" and status = 404 and body = "Inr JNull" and validate = portal_validate
        and list_of_set = remdups and inventory = "[]" and sink = refuse_empty_names]
      fetch_failure [where requests_get = "serve 200 (Inl ''Expecting value'')"
        and url = "''https://cmdb.example/api''" and token = "''secret''" and m = "''Expecting value''"
        and validate = portal_validate and list_of_set = remdups and inventory = "[]" and sink = refuse_empty_names]
    by blast
qed

subsection \<open>The sort\<close>




subsection \<open>The calls\<close>

lemma host_calls_no_add_group: "list_all (\<lambda>c. \<not> is_add_group c) (host_calls h)"
  by (simp add: host_calls_def calls_with_def list_all_iff image_iff)

lemma concat_host_calls_no_add_group:
  "list_all (\<lambda>c. \<not> is_add_group c) (concat (map host_calls hs))"
  by (induction hs) (simp_all add: host_calls_no_add_group)

lemma emit_prefix:
  "\<exists>calls rest. fst (emit sink cs inventory) = inventory @ calls \<and> cs = calls @ rest \<and>
     (snd (emit sink cs inventory) = Inr () \<longrightarrow> rest = []) \<and>
     (\<forall>e. snd (emit sink cs inventory) = Inl e \<longrightarrow>
        (\<exists>c rest'. rest = c # rest' \<and> sink (inventory @ calls) c = Some e))"
  using emit_cases [of sink inventory cs]
proof
  assume "accepts sink inventory cs \<and> emit sink cs inventory = (inventory @ cs, Inr ())"
  then have "fst (emit sink cs inventory) = inventory @ cs \<and> cs = cs @ [] \<and>
     (snd (emit sink cs inventory) = Inr () \<longrightarrow> ([]::call list) = []) \<and>
     (\<forall>e. snd (emit sink cs inventory) = Inl e \<longrightarrow>
        (\<exists>c rest'. ([]::call list) = c # rest' \<and> sink (inventory @ cs) c = Some e))"
    by simp
  then show ?thesis by blast
next
  assume "\<exists>pre c post e. cs = pre @ c # post \<and> accepts sink inventory pre \<and>
      sink (inventory @ pre) c = Some e \<and> emit sink cs inventory = (inventory @ pre, Inl e)"
  then obtain pre c post e where p: "cs = pre @ c # post" "sink (inventory @ pre) c = Some e"
      "emit sink cs inventory = (inventory @ pre, Inl e)"
    by blast
  then have "fst (emit sink cs inventory) = inventory @ pre \<and> cs = pre @ (c # post) \<and>
     (snd (emit sink cs inventory) = Inr () \<longrightarrow> c # post = []) \<and>
     (\<forall>e'. snd (emit sink cs inventory) = Inl e' \<longrightarrow>
        (\<exists>c' rest'. c # post = c' # rest' \<and> sink (inventory @ pre) c' = Some e'))"
    by simp
  then show ?thesis by blast
qed

text \<open>
  C2, amended: for every payload the validator lets through in which every group list is
  the placeholder \<^verbatim>\<open>[null]\<close> or holds no null, the calls \<open>parse\<close> makes on the inventory
  are, in this order: one \<^verbatim>\<open>add_group\<close> for each sanitized group name of the hosts, each
  name once; then, for each host in sorted order, \<^verbatim>\<open>add_host\<close> into \<^verbatim>\<open>all\<close>,
  \<^verbatim>\<open>set_variable\<close> of \<^verbatim>\<open>ansible_host\<close> to the host name, \<^verbatim>\<open>add_host\<close> into each of its
  sanitized groups and \<^verbatim>\<open>set_variable\<close> of \<^verbatim>\<open>enabled\<close>. No \<^verbatim>\<open>add_group\<close> comes after a
  call for a host. The sequence stops only at a call that the inventory itself makes raise,
  and \<open>parse\<close> then raises that exception; when the inventory lets every call return the
  whole sequence is made and \<open>parse\<close> returns.
\<close>

theorem registration_calls:
  assumes "schema_sound validate" and "list_of_set_ok list_of_set"
    and "requests_get url (headers token) = Response 200 (Inr raw_data)"
    and "validate raw_data = None"
    and "list_all no_mixed_null (hosts_of raw_data)"
  shows "parse sink requests_get validate list_of_set url token inventory =
           emit sink
             (map AddGroup
                (list_of_set (concat (map memberships (sort_key primary_address (hosts_of raw_data))))) @
              concat (map host_calls (sort_key primary_address (hosts_of raw_data))))
             inventory \<and>
         (accepts sink inventory
            (map AddGroup
               (list_of_set (concat (map memberships (sort_key primary_address (hosts_of raw_data))))) @
             concat (map host_calls (sort_key primary_address (hosts_of raw_data)))) \<longrightarrow>
          parse sink requests_get validate list_of_set url token inventory =
            (inventory @
               map AddGroup
                 (list_of_set (concat (map memberships (sort_key primary_address (hosts_of raw_data))))) @
               concat (map host_calls (sort_key primary_address (hosts_of raw_data))),
             Inr ())) \<and>
         (\<exists>calls rest.
            fst (parse sink requests_get validate list_of_set url token inventory) = inventory @ calls \<and>
            map AddGroup
              (list_of_set (concat (map memberships (sort_key primary_address (hosts_of raw_data))))) @
            concat (map host_calls (sort_key primary_address (hosts_of raw_data))) = calls @ rest \<and>
            (snd (parse sink requests_get validate list_of_set url token inventory) = Inr () \<longrightarrow>
               rest = []) \<and>
            (\<forall>e. snd (parse sink requests_get validate list_of_set url token inventory) = Inl e \<longrightarrow>
               (\<exists>c rest'. rest = c # rest' \<and> sink (inventory @ calls) c = Some e))) \<and>
         distinct (list_of_set (concat (map memberships (sort_key primary_address (hosts_of raw_data))))) \<and>
         set (list_of_set (concat (map memberships (sort_key primary_address (hosts_of raw_data))))) =
           (\<Union>h \<in> set (hosts_of raw_data). set (memberships h)) \<and>
         list_all (\<lambda>c. \<not> is_add_group c)
           (concat (map host_calls (sort_key primary_address (hosts_of raw_data))))"
proof -
  let ?w = "map AddGroup
              (list_of_set (concat (map memberships (sort_key primary_address (hosts_of raw_data))))) @
            concat (map host_calls (sort_key primary_address (hosts_of raw_data)))"
  let ?run = "parse sink requests_get validate list_of_set url token inventory"
  from assms(1,4) have conf: "schema_conforms raw_data"
    by (simp add: schema_sound_def)
  from assms(2) have los: "distinct (list_of_set xs) \<and> set (list_of_set xs) = set xs" for xs
    by (simp add: list_of_set_ok_def)
  have run: "?run = emit sink ?w inventory"
    using assms(3,4) conf assms(5) by (rule parse_plain)
  have full: "accepts sink inventory ?w \<longrightarrow> ?run = (inventory @ ?w, Inr ())"
    by (simp add: run emit_accepts)
  have part: "\<exists>calls rest. fst ?run = inventory @ calls \<and> ?w = calls @ rest \<and>
      (snd ?run = Inr () \<longrightarrow> rest = []) \<and>
      (\<forall>e. snd ?run = Inl e \<longrightarrow> (\<exists>c rest'. rest = c # rest' \<and> sink (inventory @ calls) c = Some e))"
    unfolding run by (rule emit_prefix)
  have groups: "distinct (list_of_set (concat (map memberships (sort_key primary_address (hosts_of raw_data))))) \<and>
      set (list_of_set (concat (map memberships (sort_key primary_address (hosts_of raw_data))))) =
        (\<Union>h \<in> set (hosts_of raw_data). set (memberships h))"
    by (simp add: los)
  from run full part groups concat_host_calls_no_add_group [of "sort_key primary_address (hosts_of raw_data)"]
  show ?thesis
    by (intro conjI) (simp_all only: simp_thms)
qed

lemma sanitize_web: "sanitize_str ''Web'' = ''web''"
  by code_simp

lemma sanitize_prod: "sanitize_str ''prod-1'' = ''prod_1''"
  by code_simp

theorem registration_calls_witness:
  "parse refuse_empty_names
     (serve 200 (Inr (payload [host_record ''web-2'' [JStr ''Web'', JStr ''prod-1''] True,
                               host_record ''web-1'' [JStr ''Web''] False,
                               host_record ''db'' [JNull] True])))
     portal_validate remdups ''https://cmdb.example/api'' ''secret'' [] =
     ([AddGroup ''web'', AddGroup ''prod_1'',
       AddHost (JStr ''db'') ''all'',
       SetVariable (JStr ''db'') ''ansible_host'' (JStr ''db''),
       SetVariable (JStr ''db'') ''enabled'' (JBool True),
       AddHost (JStr ''web-1'') ''all'',
       SetVariable (JStr ''web-1'') ''ansible_host'' (JStr ''web-1''),
       AddHost (JStr ''web-1'') ''web'',
       SetVariable (JStr ''web-1'') ''enabled'' (JBool False),
       AddHost (JStr ''web-2'') ''all'',
       SetVariable (JStr ''web-2'') ''ansible_host'' (JStr ''web-2''),
       AddHost (JStr ''web-2'') ''web'',
       AddHost (JStr ''web-2'') ''prod_1'',
       SetVariable (JStr ''web-2'') ''enabled'' (JBool True)], Inr ())"
proof -
  let ?p = "payload [host_record ''web-2'' [JStr ''Web'', JStr ''prod-1''] True,
                     host_record ''web-1'' [JStr ''Web''] False,
                     host_record ''db'' [JNull] True]"
  have s: "schema_sound portal_validate"
    by (simp add: schema_sound_def portal_validate_def)
  have l: "list_of_set_ok remdups"
    by (simp add: list_of_set_ok_def)
  have g: "serve 200 (Inr ?p) ''https://cmdb.example/api'' (headers ''secret'') = Response 200 (Inr ?p)"
    by (simp add: serve_def)
  have v: "portal_validate ?p = None"
    by (simp add: portal_validate_def schema_conforms_def host_conforms_def payload_def host_record_def)
  have n: "list_all no_mixed_null (hosts_of ?p)"
    by (simp add: hosts_of_def field_def payload_def no_mixed_null_def group_list_def host_record_def)
  from registration_calls [where requests_get = "serve 200 (Inr ?p)"
      and url = "''https://cmdb.example/api''" and token = "''secret''" and inventory = "[]"
      and validate = portal_validate and raw_data = ?p and sink = refuse_empty_names, OF s l g v n]
  have "parse refuse_empty_names (serve 200 (Inr ?p)) portal_validate remdups
          ''https://cmdb.example/api'' ''secret'' [] =
        emit refuse_empty_names
          (map AddGroup (remdups (concat (map memberships (sort_key primary_address (hosts_of ?p))))) @
             concat (map host_calls (sort_key primary_address (hosts_of ?p)))) []"
    by (rule conjunct1)
  then show ?thesis
    by (simp add: hosts_of_def field_def payload_def primary_address_def host_record_def PRIMARY_KEY_def
        memberships_def group_list_def host_calls_def calls_with_def sanitize_web sanitize_prod
        invoke_def)
qed

lemma sanitize_empty: "sanitize_str [] = []"
  by (simp add: sanitize_str_def replace_dash_def lower_def regex_sub_def)

theorem registration_calls_counterexample:
  "portal_validate (payload [host_record ''node-01'' [JStr ''ops'', JNull] True]) = None \<and>
   parse refuse_empty_names
     (serve 200 (Inr (payload [host_record ''node-01'' [JStr ''ops'', JNull] True])))
     portal_validate remdups ''https://cmdb.example/api'' ''secret'' [] = ([], Inl TypeError) \<and>
   parse accept_all
     (serve 200 (Inr (payload [host_record ''node-01'' [JStr ''ops'', JNull] True])))
     portal_validate remdups ''https://cmdb.example/api'' ''secret'' [] = ([], Inl TypeError) \<and>
   portal_validate (payload [host_record ''node-02'' [JStr ''''] True]) = None \<and>
   parse refuse_empty_names
     (serve 200 (Inr (payload [host_record ''node-02'' [JStr ''''] True])))
     portal_validate remdups ''https://cmdb.example/api'' ''secret'' [] =
     ([], Inl (AnsibleError ''Invalid empty/false group name provided: ''))"
  by (simp add: parse_def load_inventory_data_def try_fetch_def serve_def portal_validate_def
      schema_conforms_def host_conforms_def payload_def host_record_def sorted_data_def
      PRIMARY_KEY_def py_sorted_def group_names_def sanitize_empty invoke_def)

subsection \<open>Errors\<close>

lemma parse_error:
  assumes "schema_sound validate"
    and "snd (parse sink requests_get validate list_of_set url token inventory) = Inl e"
  shows "fst (parse sink requests_get validate list_of_set url token inventory) = inventory \<or>
         (\<exists>calls c. fst (parse sink requests_get validate list_of_set url token inventory) =
                       inventory @ calls \<and> sink (inventory @ calls) c = Some e)"
proof (cases "load_inventory_data requests_get url token")
  case (Inl e')
  then show ?thesis by (simp add: parse_def)
next
  case (Inr raw)
  show ?thesis
  proof (cases "validate raw")
    case (Some msg)
    with Inr show ?thesis by (simp add: parse_def)
  next
    case None
    with assms(1) have conf: "schema_conforms raw"
      by (simp add: schema_sound_def)
    let ?hs = "sort_key primary_address (hosts_of raw)"
    show ?thesis
    proof (cases "collect_groups ?hs []")
      case (Inl e')
      with Inr None conf show ?thesis
        by (simp add: parse_def sorted_data_conforms)
    next
      case groups: (Inr host_groups)
      let ?w = "map AddGroup (list_of_set host_groups) @
                concat (map (\<lambda>h. calls_with h (projr (group_names h))) ?hs)"
      obtain nss where nss: "map_err group_names ?hs = Inr nss"
        using groups by (auto simp: collect_groups_map_err split: sum.splits)
      have one: "register_host sink h i = emit sink (calls_with h (projr (group_names h))) i"
        if "h \<in> set ?hs" for h i
      proof -
        from that obtain names where "group_names h = Inr names"
          using map_err_InrD [OF nss] by blast
        then show ?thesis
          using register_host_emit [OF sorted_hosts_conform [OF conf that], of names sink i] by simp
      qed
      have "register_hosts sink ?hs =
          emit sink (concat (map (\<lambda>h. calls_with h (projr (group_names h))) ?hs))"
        by (rule ext) (rule register_hosts_emit, rule one)
      with Inr None conf groups
      have run: "parse sink requests_get validate list_of_set url token inventory = emit sink ?w inventory"
        by (simp add: parse_def sorted_data_conforms add_groups_emit emit_append)
      from emit_cases [of sink inventory ?w] show ?thesis
      proof
        assume "accepts sink inventory ?w \<and> emit sink ?w inventory = (inventory @ ?w, Inr ())"
        with assms(2) run show ?thesis by simp
      next
        assume "\<exists>pre c post e. ?w = pre @ c # post \<and> accepts sink inventory pre \<and>
          sink (inventory @ pre) c = Some e \<and> emit sink ?w inventory = (inventory @ pre, Inl e)"
        then obtain pre c e' where p: "sink (inventory @ pre) c = Some e'"
          "emit sink ?w inventory = (inventory @ pre, Inl e')"
          by blast
        with assms(2) run have "e' = e" by simp
        with p run have "fst (parse sink requests_get validate list_of_set url token inventory) =
            inventory @ pre \<and> sink (inventory @ pre) c = Some e"
          by simp
        then show ?thesis by blast
      qed
    qed
  qed
qed

text \<open>
  C3, amended: a payload that the validator rejects makes \<open>parse\<close> raise an AnsibleError
  that carries the validator's message, with no call made to the inventory; a payload in
  which a host lacks \<^verbatim>\<open>primary_address\<close> does not conform and is rejected so. Whenever
  \<open>parse\<close> raises, either the inventory is as it was before the call, or the exception
  is one that a method of the inventory raised, on the call that follows those already
  made; with an inventory whose methods never raise the first is always the case.
\<close>

theorem validation_failure:
  assumes "schema_sound validate"
  shows "(requests_get url (headers token) = Response 200 (Inr raw_data) \<and>
          validate raw_data = Some msg \<longrightarrow>
            parse sink requests_get validate list_of_set url token inventory =
              (inventory,
               Inl (AnsibleError (''Unable to validate data, the original error is: '' @ msg)))) \<and>
         (requests_get url (headers token) = Response 200 (Inr raw_data) \<and>
          (\<exists>host \<in> set (hosts_of raw_data). \<exists>e. getitem host PRIMARY_KEY = Inl e) \<longrightarrow>
            (\<exists>diagnostic. validate raw_data = Some diagnostic \<and>
               parse sink requests_get validate list_of_set url token inventory =
                 (inventory,
                  Inl (AnsibleError
                    (''Unable to validate data, the original error is: '' @ diagnostic))))) \<and>
         (snd (parse sink requests_get validate list_of_set url token inventory) = Inl e \<longrightarrow>
            fst (parse sink requests_get validate list_of_set url token inventory) = inventory \<or>
            (\<exists>calls c.
               fst (parse sink requests_get validate list_of_set url token inventory) =
                 inventory @ calls \<and>
               sink (inventory @ calls) c = Some e)) \<and>
         (snd (parse accept_all requests_get validate list_of_set url token inventory) = Inl e \<longrightarrow>
            fst (parse accept_all requests_get validate list_of_set url token inventory) = inventory)"
proof (intro conjI impI)
  assume "requests_get url (headers token) = Response 200 (Inr raw_data) \<and> validate raw_data = Some msg"
  then show "parse sink requests_get validate list_of_set url token inventory =
      (inventory, Inl (AnsibleError (''Unable to validate data, the original error is: '' @ msg)))"
    by (simp add: parse_def load_ok)
next
  assume a: "requests_get url (headers token) = Response 200 (Inr raw_data) \<and>
    (\<exists>host \<in> set (hosts_of raw_data). \<exists>e. getitem host PRIMARY_KEY = Inl e)"
  then obtain host e' where h: "host \<in> set (hosts_of raw_data)" "getitem host PRIMARY_KEY = Inl e'"
    by blast
  have "\<not> schema_conforms raw_data"
  proof
    assume "schema_conforms raw_data"
    then have "list_all host_conforms (hosts_of raw_data)"
      by (rule schema_conformsD(2))
    with h(1) have "host_conforms host"
      by (simp add: list_all_iff)
    then have "getitem host PRIMARY_KEY = Inr (JStr (primary_address host))"
      by (rule host_conformsD(1))
    with h(2) show False by simp
  qed
  with assms have "validate raw_data \<noteq> None"
    by (auto simp: schema_sound_def)
  then obtain diagnostic where "validate raw_data = Some diagnostic"
    by blast
  with a show "\<exists>diagnostic. validate raw_data = Some diagnostic \<and>
      parse sink requests_get validate list_of_set url token inventory =
        (inventory, Inl (AnsibleError (''Unable to validate data, the original error is: '' @ diagnostic)))"
    by (simp add: parse_def load_ok)
next
  assume "snd (parse sink requests_get validate list_of_set url token inventory) = Inl e"
  with assms show "fst (parse sink requests_get validate list_of_set url token inventory) = inventory \<or>
      (\<exists>calls c. fst (parse sink requests_get validate list_of_set url token inventory) =
         inventory @ calls \<and> sink (inventory @ calls) c = Some e)"
    by (rule parse_error)
next
  assume "snd (parse accept_all requests_get validate list_of_set url token inventory) = Inl e"
  with assms have "fst (parse accept_all requests_get validate list_of_set url token inventory) = inventory \<or>
      (\<exists>calls c. fst (parse accept_all requests_get validate list_of_set url token inventory) =
         inventory @ calls \<and> accept_all (inventory @ calls) c = Some e)"
    by (rule parse_error)
  then show "fst (parse accept_all requests_get validate list_of_set url token inventory) = inventory"
    by (simp add: accept_all_def)
qed

theorem validation_failure_witness:
  "parse refuse_empty_names
     (serve 200 (Inr (payload [host_record ''node-01'' [JStr ''ops''] True,
                               JObj [(''group_list'', JArr [JStr ''ops'']), (''enabled'', JBool True)]])))
     portal_validate remdups ''https://cmdb.example/api'' ''secret'' [AddGroup ''old''] =
     ([AddGroup ''old''],
      Inl (AnsibleError (''Unable to validate data, the original error is: '' @
                         ''the instance does not conform'')))"
proof -
  let ?p = "payload [host_record ''node-01'' [JStr ''ops''] True,
                     JObj [(''group_list'', JArr [JStr ''ops'']), (''enabled'', JBool True)]]"
  have s: "schema_sound portal_validate"
    by (simp add: schema_sound_def portal_validate_def)
  have g: "serve 200 (Inr ?p) ''https://cmdb.example/api'' (headers ''secret'') = Response 200 (Inr ?p)"
    by (simp add: serve_def)
  have v: "portal_validate ?p = Some ''the instance does not conform''"
    by (simp add: portal_validate_def schema_conforms_def host_conforms_def payload_def host_record_def)
  from validation_failure [where validate = portal_validate and requests_get = "serve 200 (Inr ?p)"
      and url = "''https://cmdb.example/api''" and token = "''secret''" and raw_data = ?p
      and msg = "''the instance does not conform''" and list_of_set = remdups
      and inventory = "[AddGroup ''old'']" and sink = refuse_empty_names, OF s] g v
  show ?thesis by blast
qed

lemma sanitize_ops: "sanitize_str ''ops'' = ''ops''"
  by code_simp

theorem validation_failure_counterexample:
  "portal_validate (payload [host_record '''' [JStr ''ops''] True]) = None \<and>
   parse refuse_empty_names
     (serve 200 (Inr (payload [host_record '''' [JStr ''ops''] True])))
     portal_validate remdups ''https://cmdb.example/api'' ''secret'' [] =
     ([AddGroup ''ops''], Inl (AnsibleError ''Invalid empty host name provided: ''))"
  by (simp add: parse_def load_inventory_data_def try_fetch_def serve_def portal_validate_def
      schema_conforms_def host_conforms_def payload_def host_record_def sorted_data_def
      PRIMARY_KEY_def py_sorted_def group_names_def sanitize_ops invoke_def register_host_def)

subsection \<open>The placeholder group list\<close>

lemma emit_Nil_fun: "emit sink [] = (\<lambda>i. (i, Inr ()))"
  by (rule ext) simp

lemma emit_Cons_fun: "emit sink (c # cs) = (\<lambda>i. and_then (invoke sink c i) (emit sink cs))"
  by (rule ext) simp

lemma register_hosts_Nil_fun: "register_hosts sink [] = (\<lambda>i. (i, Inr ()))"
  by (rule ext) simp

lemma register_hosts_Cons_fun:
  "register_hosts sink (h # hs) = (\<lambda>i. and_then (register_host sink h i) (register_hosts sink hs))"
  by (rule ext) simp

lemma collect_groups_skip:
  "group_names host = Inr [] \<Longrightarrow>
     collect_groups (before @ host # after) host_groups = collect_groups (before @ after) host_groups"
  by (induction before arbitrary: host_groups) (auto split: sum.splits)

text \<open>
  C6: a host whose \<^verbatim>\<open>group_list\<close> is exactly \<^verbatim>\<open>[null]\<close> has no group membership. It adds
  no name to the groups that are created, wherever it stands among the hosts, and the
  calls made for it are \<^verbatim>\<open>add_host\<close> into \<^verbatim>\<open>all\<close> and the two \<^verbatim>\<open>set_variable\<close> calls: it
  is added to no other group.
\<close>

theorem placeholder_no_groups:
  assumes "getitem host ''group_list'' = Inr (JArr [JNull])"
    and "getitem host PRIMARY_KEY = Inr hostname"
    and "getitem host ''enabled'' = Inr enabled"
  shows "group_names host = Inr [] \<and>
         collect_groups (before @ host # after) host_groups =
           collect_groups (before @ after) host_groups \<and>
         register_host sink host inventory =
           emit sink
             [AddHost hostname ''all'',
              SetVariable hostname ''ansible_host'' hostname,
              SetVariable hostname ''enabled'' enabled]
             inventory \<and>
         register_host accept_all host inventory =
           (inventory @
              [AddHost hostname ''all'',
               SetVariable hostname ''ansible_host'' hostname,
               SetVariable hostname ''enabled'' enabled],
            Inr ())"
proof -
  from assms(1) have none: "group_names host = Inr []"
    by (simp add: group_names_def)
  have calls: "register_host s host inventory =
      emit s [AddHost hostname ''all'',
              SetVariable hostname ''ansible_host'' hostname,
              SetVariable hostname ''enabled'' enabled] inventory" for s
    using assms
    by (simp add: register_host_def emit_Cons_fun emit_Nil_fun and_then_return del: emit.simps)
  from none collect_groups_skip [OF none] calls [of sink] calls [of accept_all] show ?thesis
    by (simp add: emit_accept_all del: emit.simps)
qed

theorem placeholder_no_groups_witness:
  "group_names (host_record ''node-01'' [JNull] False) = Inr [] \<and>
   collect_groups [host_record ''node-00'' [JStr ''ops''] True, host_record ''node-01'' [JNull] False] [] =
     collect_groups [host_record ''node-00'' [JStr ''ops''] True] [] \<and>
   register_host refuse_empty_names (host_record ''node-01'' [JNull] False) [] =
     ([AddHost (JStr ''node-01'') ''all'',
       SetVariable (JStr ''node-01'') ''ansible_host'' (JStr ''node-01''),
       SetVariable (JStr ''node-01'') ''enabled'' (JBool False)],
      Inr ())"
proof -
  have a: "getitem (host_record ''node-01'' [JNull] False) ''group_list'' = Inr (JArr [JNull])"
    by (simp add: host_record_def)
  have b: "getitem (host_record ''node-01'' [JNull] False) PRIMARY_KEY = Inr (JStr ''node-01'')"
    by (simp add: host_record_def PRIMARY_KEY_def)
  have c: "getitem (host_record ''node-01'' [JNull] False) ''enabled'' = Inr (JBool False)"
    by (simp add: host_record_def)
  from placeholder_no_groups [OF a b c, of "[host_record ''node-00'' [JStr ''ops''] True]" "[]" "[]"
      refuse_empty_names "[]"]
  show ?thesis
    by (simp add: invoke_def del: collect_groups.simps)
qed

subsection \<open>The scenario of the specification\<close>

lemma list_of_set_single:
  assumes "list_of_set_ok list_of_set"
  shows "list_of_set [x] = [x]"
proof -
  from assms have d: "distinct (list_of_set [x])" and s: "set (list_of_set [x]) = {x}"
    by (simp_all add: list_of_set_ok_def)
  show ?thesis
  proof (cases "list_of_set [x]")
    case Nil
    with s show ?thesis by simp
  next
    case (Cons y ys)
    with s have y: "y = x" and sub: "set ys \<subseteq> {x}" by auto
    from Cons d y have "x \<notin> set ys" by simp
    with sub have "ys = []" by (cases ys) auto
    with Cons y show ?thesis by simp
  qed
qed

lemma sanitize_compute: "sanitize_str ''Compute!'' = ''compute_''"
  by code_simp

text \<open>
  C5: on the payload with the hosts \<^verbatim>\<open>node-02\<close> (groups \<^verbatim>\<open>["Compute!"]\<close>, enabled) and
  \<^verbatim>\<open>node-01\<close> (groups \<^verbatim>\<open>[null]\<close>, not enabled), in this order, the hosts are sorted to
  \<^verbatim>\<open>node-01\<close>, \<^verbatim>\<open>node-02\<close>; the one group created is \<^verbatim>\<open>compute_\<close>; \<^verbatim>\<open>node-01\<close> is added to
  \<^verbatim>\<open>all\<close> only, with \<^verbatim>\<open>enabled\<close> false; \<^verbatim>\<open>node-02\<close> is added to \<^verbatim>\<open>all\<close> and to
  \<^verbatim>\<open>compute_\<close>, with \<^verbatim>\<open>enabled\<close> true. These are the calls \<open>parse\<close> makes, in this order,
  on every inventory, and all of them return on an inventory that refuses no call.
\<close>

theorem scenario:
  assumes "list_of_set_ok list_of_set"
    and "requests_get url (headers token) =
           Response 200 (Inr (payload [host_record ''node-02'' [JStr ''Compute!''] True,
                                       host_record ''node-01'' [JNull] False]))"
    and "validate (payload [host_record ''node-02'' [JStr ''Compute!''] True,
                            host_record ''node-01'' [JNull] False]) = None"
  shows "sorted_data (payload [host_record ''node-02'' [JStr ''Compute!''] True,
                               host_record ''node-01'' [JNull] False]) =
           Inr [host_record ''node-01'' [JNull] False,
                host_record ''node-02'' [JStr ''Compute!''] True] \<and>
         collect_groups [host_record ''node-01'' [JNull] False,
                         host_record ''node-02'' [JStr ''Compute!''] True] [] = Inr [''compute_''] \<and>
         parse sink requests_get validate list_of_set url token inventory =
           emit sink
              [AddGroup ''compute_'',
               AddHost (JStr ''node-01'') ''all'',
               SetVariable (JStr ''node-01'') ''ansible_host'' (JStr ''node-01''),
               SetVariable (JStr ''node-01'') ''enabled'' (JBool False),
               AddHost (JStr ''node-02'') ''all'',
               SetVariable (JStr ''node-02'') ''ansible_host'' (JStr ''node-02''),
               AddHost (JStr ''node-02'') ''compute_'',
               SetVariable (JStr ''node-02'') ''enabled'' (JBool True)]
              inventory \<and>
         parse accept_all requests_get validate list_of_set url token inventory =
           (inventory @
              [AddGroup ''compute_'',
               AddHost (JStr ''node-01'') ''all'',
               SetVariable (JStr ''node-01'') ''ansible_host'' (JStr ''node-01''),
               SetVariable (JStr ''node-01'') ''enabled'' (JBool False),
               AddHost (JStr ''node-02'') ''all'',
               SetVariable (JStr ''node-02'') ''ansible_host'' (JStr ''node-02''),
               AddHost (JStr ''node-02'') ''compute_'',
               SetVariable (JStr ''node-02'') ''enabled'' (JBool True)],
            Inr ())"
proof -
  let ?p = "payload [host_record ''node-02'' [JStr ''Compute!''] True,
                     host_record ''node-01'' [JNull] False]"
  let ?h1 = "host_record ''node-01'' [JNull] False"
  let ?h2 = "host_record ''node-02'' [JStr ''Compute!''] True"
  let ?calls = "[AddGroup ''compute_'',
               AddHost (JStr ''node-01'') ''all'',
               SetVariable (JStr ''node-01'') ''ansible_host'' (JStr ''node-01''),
               SetVariable (JStr ''node-01'') ''enabled'' (JBool False),
               AddHost (JStr ''node-02'') ''all'',
               SetVariable (JStr ''node-02'') ''ansible_host'' (JStr ''node-02''),
               AddHost (JStr ''node-02'') ''compute_'',
               SetVariable (JStr ''node-02'') ''enabled'' (JBool True)]"
  have sorted: "sorted_data ?p = Inr [?h1, ?h2]"
    by (simp add: sorted_data_def payload_def host_record_def PRIMARY_KEY_def py_sorted_def)
  have g1: "group_names ?h1 = Inr []"
    by (simp add: group_names_def host_record_def)
  have g2: "group_names ?h2 = Inr [''compute_'']"
    by (simp add: group_names_def host_record_def sanitize_compute)
  have groups: "collect_groups [?h1, ?h2] [] = Inr [''compute_'']"
    by (simp add: g1 g2)
  have c1: "host_conforms ?h1" and c2: "host_conforms ?h2"
    by (simp_all add: host_conforms_def host_record_def)
  have r1: "register_host s ?h1 = emit s
      [AddHost (JStr ''node-01'') ''all'',
       SetVariable (JStr ''node-01'') ''ansible_host'' (JStr ''node-01''),
       SetVariable (JStr ''node-01'') ''enabled'' (JBool False)]" for s
  proof (rule ext)
    fix i
    have "calls_with ?h1 [] = [AddHost (JStr ''node-01'') ''all'',
       SetVariable (JStr ''node-01'') ''ansible_host'' (JStr ''node-01''),
       SetVariable (JStr ''node-01'') ''enabled'' (JBool False)]"
      by (simp add: calls_with_def primary_address_def field_def host_record_def PRIMARY_KEY_def)
    with register_host_emit [OF c1 g1, of s i]
    show "register_host s ?h1 i = emit s
      [AddHost (JStr ''node-01'') ''all'',
       SetVariable (JStr ''node-01'') ''ansible_host'' (JStr ''node-01''),
       SetVariable (JStr ''node-01'') ''enabled'' (JBool False)] i"
      by (simp only:)
  qed
  have r2: "register_host s ?h2 = emit s
      [AddHost (JStr ''node-02'') ''all'',
       SetVariable (JStr ''node-02'') ''ansible_host'' (JStr ''node-02''),
       AddHost (JStr ''node-02'') ''compute_'',
       SetVariable (JStr ''node-02'') ''enabled'' (JBool True)]" for s
  proof (rule ext)
    fix i
    have "calls_with ?h2 [''compute_''] = [AddHost (JStr ''node-02'') ''all'',
       SetVariable (JStr ''node-02'') ''ansible_host'' (JStr ''node-02''),
       AddHost (JStr ''node-02'') ''compute_'',
       SetVariable (JStr ''node-02'') ''enabled'' (JBool True)]"
      by (simp add: calls_with_def primary_address_def field_def host_record_def PRIMARY_KEY_def)
    with register_host_emit [OF c2 g2, of s i]
    show "register_host s ?h2 i = emit s
      [AddHost (JStr ''node-02'') ''all'',
       SetVariable (JStr ''node-02'') ''ansible_host'' (JStr ''node-02''),
       AddHost (JStr ''node-02'') ''compute_'',
       SetVariable (JStr ''node-02'') ''enabled'' (JBool True)] i"
      by (simp only:)
  qed
  have run: "parse s requests_get validate list_of_set url token inventory = emit s ?calls inventory" for s
  proof -
    have "parse s requests_get validate list_of_set url token inventory =
        and_then (add_groups s [''compute_''] inventory) (register_hosts s [?h1, ?h2])"
      using assms(2,3) sorted groups
      by (simp add: parse_def load_ok list_of_set_single [OF assms(1)]
          del: register_hosts.simps collect_groups.simps add_groups.simps)
    also have "\<dots> = emit s ?calls inventory"
      by (simp add: emit_Nil_fun emit_Cons_fun register_hosts_Nil_fun register_hosts_Cons_fun
          r1 r2 and_then_assoc and_then_return del: emit.simps register_hosts.simps)
    finally show ?thesis .
  qed
  from sorted groups run [of sink] run [of accept_all] show ?thesis
    by (simp only: emit_accept_all)
qed

theorem scenario_witness:
  "parse refuse_empty_names
     (serve 200 (Inr (payload [host_record ''node-02'' [JStr ''Compute!''] True,
                               host_record ''node-01'' [JNull] False])))
     portal_validate remdups ''https://cmdb.example/api'' ''secret'' [] =
     ([AddGroup ''compute_'',
       AddHost (JStr ''node-01'') ''all'',
       SetVariable (JStr ''node-01'') ''ansible_host'' (JStr ''node-01''),
       SetVariable (JStr ''node-01'') ''enabled'' (JBool False),
       AddHost (JStr ''node-02'') ''all'',
       SetVariable (JStr ''node-02'') ''ansible_host'' (JStr ''node-02''),
       AddHost (JStr ''node-02'') ''compute_'',
       SetVariable (JStr ''node-02'') ''enabled'' (JBool True)],
      Inr ())"
proof -
  let ?p = "payload [host_record ''node-02'' [JStr ''Compute!''] True,
                     host_record ''node-01'' [JNull] False]"
  have l: "list_of_set_ok remdups"
    by (simp add: list_of_set_ok_def)
  have g: "serve 200 (Inr ?p) ''https://cmdb.example/api'' (headers ''secret'') = Response 200 (Inr ?p)"
    by (simp add: serve_def)
  have v: "portal_validate ?p = None"
    by (simp add: portal_validate_def schema_conforms_def host_conforms_def payload_def host_record_def)
  from scenario [where requests_get = "serve 200 (Inr ?p)" and url = "''https://cmdb.example/api''"
      and token = "''secret''" and validate = portal_validate and inventory = "[]"
      and sink = refuse_empty_names, OF l g v]
  show ?thesis by (simp add: invoke_def)
qed

subsection \<open>Group lists that hold null beside other entries\<close>





subsection \<open>Hosts that share an address\<close>


lemma last_set_variable_add_groups: "last_set_variable (map AddGroup names) host name = None"
  by (induction names) simp_all








end
